theory Spec2Isabelle
  imports Main "HOL-Library.AList"
begin

section \<open>Python strings\<close>

text \<open>
  A Python \<open>str\<close> is a sequence of Unicode code points, so a string of the program is a
  list of natural numbers. \<open>py\<close> turns an ASCII literal into such a list.
\<close>

type_synonym pystr = "nat list"

definition py :: "string \<Rightarrow> pystr" where
  "py s = map of_char s"

text \<open>
  \<open>str.isspace\<close> on one code point; the class \<open>\s\<close> of \<open>re\<close> on a \<open>str\<close> pattern and
  \<open>str.strip()\<close> without argument both use it.
\<close>

definition isspace :: "nat \<Rightarrow> bool" where
  "isspace c \<longleftrightarrow>
     (9 \<le> c \<and> c \<le> 13) \<or> (28 \<le> c \<and> c \<le> 32) \<or> c = 133 \<or> c = 160 \<or> c = 5760
     \<or> (8192 \<le> c \<and> c \<le> 8202) \<or> c = 8232 \<or> c = 8233 \<or> c = 8239 \<or> c = 8287
     \<or> c = 12288"

definition strip :: "pystr \<Rightarrow> pystr" where
  "strip s = rev (dropWhile isspace (rev (dropWhile isspace s)))"

text \<open>\<open>needle in haystack\<close> on two strings: the substring test.\<close>

fun str_contains :: "pystr \<Rightarrow> pystr \<Rightarrow> bool" where
  "str_contains needle [] = (needle = [])"
| "str_contains needle (c # cs) =
     (take (length needle) (c # cs) = needle \<or> str_contains needle cs)"

text \<open>\<open>str(n)\<close> of a non-negative integer.\<close>

fun str_of_nat :: "nat \<Rightarrow> pystr" where
  "str_of_nat n = (if n < 10 then [48 + n] else str_of_nat (n div 10) @ [48 + n mod 10])"

declare str_of_nat.simps [simp del]

section \<open>Values and exceptions\<close>

text \<open>
  The values \<open>json.loads\<close> and \<open>request.get_json()\<close> produce: \<open>None\<close>, \<open>bool\<close>, \<open>int\<close>,
  \<open>float\<close>, \<open>str\<close>, \<open>list\<close> and \<open>dict\<close> (an association list in insertion order). A float
  is one of the special values or is given by a decimal number it is the nearest double
  of: \<open>Decimal s m e\<close> stands for \<open>float\<close> of \<open>m\<close> times ten to the power \<open>e\<close>, negated when
  \<open>s\<close> holds. Every double has such a number and every JSON literal is one. The program
  only ever asks whether a float is zero, which is the case when the decimal number is at
  most half of the smallest positive double, two to the power \<open>-1075\<close>.
\<close>

datatype pyfloat = Decimal bool nat int | Infinite bool | NaN

definition float_is_zero :: "pyfloat \<Rightarrow> bool" where
  "float_is_zero f =
     (case f of
        Decimal s m e \<Rightarrow> m = 0 \<or> (e < 0 \<and> m * 2 ^ 1075 \<le> 10 ^ nat (- e))
      | _ \<Rightarrow> False)"

datatype json =
    JNull
  | JBool bool
  | JInt int
  | JFloat pyfloat
  | JString pystr
  | JArray "json list"
  | JObject "(pystr \<times> json) list"

text \<open>
  The exceptions the handler can meet. \<open>ValueError\<close> stands for the class and its
  subclasses, \<open>HTTPException\<close> carries the status code and description of a werkzeug
  exception, and \<open>OtherException\<close> is any other subclass of \<open>Exception\<close>.
\<close>

datatype exn =
    ValueError pystr
  | TypeError pystr
  | AttributeError pystr
  | HTTPException nat pystr
  | OtherException pystr

fun isinstance_ValueError :: "exn \<Rightarrow> bool" where
  "isinstance_ValueError (ValueError _) = True"
| "isinstance_ValueError _ = False"

section \<open>The regular-expression engine\<close>

text \<open>
  The fragment of \<open>re\<close> the pattern of \<open>extract_json_from_text\<close> is written in: a literal
  string, \<open>\s\<close>, the dot under \<open>re.DOTALL\<close>, sequence, greedy \<open>?\<close>, greedy \<open>*\<close> and a
  numbered capturing group. A non-capturing group \<open>(?:r)\<close> is \<open>r\<close> itself.
\<close>

datatype regex =
    Lit pystr
  | Space
  | AnyChar
  | Seq regex regex
  | Opt regex
  | Star regex
  | Group nat regex

text \<open>
  A matcher state is the text still to be read and the groups captured so far.
  \<open>backtrack r st\<close> lists the states in which a match of \<open>r\<close> from \<open>st\<close> can end, in the
  order the backtracking engine tries them: a greedy operator tries the longer match
  first. An iteration of \<open>*\<close> that consumes nothing ends the loop.
\<close>

type_synonym mstate = "pystr \<times> (nat \<rightharpoonup> pystr)"

fun backtrack :: "regex \<Rightarrow> mstate \<Rightarrow> mstate list" where
  "backtrack (Lit w) (s, g) =
     (if take (length w) s = w then [(drop (length w) s, g)] else [])"
| "backtrack Space (s, g) =
     (case s of [] \<Rightarrow> [] | x # t \<Rightarrow> if isspace x then [(t, g)] else [])"
| "backtrack AnyChar (s, g) = (case s of [] \<Rightarrow> [] | x # t \<Rightarrow> [(t, g)])"
| "backtrack (Seq a b) st = concat (map (backtrack b) (backtrack a st))"
| "backtrack (Opt a) st = backtrack a st @ [st]"
| "backtrack (Star a) (s, g) =
     concat (map (\<lambda>(s', g'). if length s' < length s then backtrack (Star a) (s', g') else [])
                 (backtrack a (s, g))) @ [(s, g)]"
| "backtrack (Group n a) (s, g) =
     map (\<lambda>(s', g'). (s', g'(n \<mapsto> take (length s - length s') s))) (backtrack a (s, g))"

declare backtrack.simps(6) [simp del]

text \<open>
  \<open>re.search\<close>: the first match at the leftmost position where there is one. The match
  object is the final matcher state; \<open>group\<close> reads a captured group from it.
\<close>

fun re_search :: "regex \<Rightarrow> pystr \<Rightarrow> mstate option" where
  "re_search r [] = (case backtrack r ([], Map.empty) of [] \<Rightarrow> None | m # _ \<Rightarrow> Some m)"
| "re_search r (x # t) =
     (case backtrack r (x # t, Map.empty) of [] \<Rightarrow> re_search r t | m # _ \<Rightarrow> Some m)"

definition group :: "mstate \<Rightarrow> nat \<Rightarrow> pystr option" where
  "group m n = snd m n"

section \<open>extract\_json\_from\_text\<close>

text \<open>The pattern \<^verbatim>\<open>(?:```json)?\s*(\{.*\})\s*(?:```)?\<close>, compiled with \<open>re.DOTALL\<close>.\<close>

definition json_pattern :: regex where
  "json_pattern =
     Seq (Opt (Lit (py ''```json'')))
       (Seq (Star Space)
         (Seq (Group 1 (Seq (Lit (py ''{'')) (Seq (Star AnyChar) (Lit (py ''}'')))))
           (Seq (Star Space) (Opt (Lit (py ''```''))))))"

text \<open>
  \<open>json.loads\<close> belongs to the standard library and is a parameter \<open>loads\<close>: it returns
  the decoded value, or \<open>Inl\<close> of the text of the \<open>JSONDecodeError\<close> it raises. The
  function raises \<open>ValueError\<close> when nothing matches and when decoding fails.
\<close>

definition extract_json_from_text :: "(pystr \<Rightarrow> pystr + json) \<Rightarrow> pystr \<Rightarrow> exn + json" where
  "extract_json_from_text loads text =
     (case re_search json_pattern text of
        None \<Rightarrow> Inl (ValueError (py ''No JSON found in response''))
      | Some json_str \<Rightarrow>
          (case group json_str 1 of
             None \<Rightarrow> Inl (TypeError (py ''the JSON object must be str, bytes or bytearray, not NoneType''))
           | Some span \<Rightarrow>
               (case loads span of
                  Inl e \<Rightarrow> Inl (ValueError (py ''Invalid JSON format: '' @ e))
                | Inr obj \<Rightarrow> Inr obj)))"

text \<open>
  The span the specification describes: from the first \<open>{\<close> of the text to the last
  \<open>}\<close> of the text, when there is a \<open>}\<close> after that first \<open>{\<close>.
\<close>

definition from_first_open :: "pystr \<Rightarrow> pystr" where
  "from_first_open text = dropWhile (\<lambda>c. c \<noteq> 123) text"

definition upto_last_close :: "pystr \<Rightarrow> pystr" where
  "upto_last_close s = rev (dropWhile (\<lambda>c. c \<noteq> 125) (rev s))"

definition brace_span :: "pystr \<Rightarrow> pystr option" where
  "brace_span text =
     (if 125 \<in> set (from_first_open text) then Some (upto_last_close (from_first_open text))
      else None)"

text \<open>Names for the parts of the pattern.\<close>

definition to_close :: regex where
  "to_close = Seq (Star AnyChar) (Lit (py ''}''))"

definition object_part :: regex where
  "object_part = Group 1 (Seq (Lit (py ''{'')) to_close)"

definition tail_part :: regex where
  "tail_part = Seq (Star Space) (Opt (Lit (py ''```'')))"

definition rest_part :: regex where
  "rest_part = Seq (Star Space) (Seq object_part tail_part)"

section \<open>The decoder of the standard library\<close>

text \<open>
  For concrete inputs \<open>loads\<close> is instantiated with \<open>json_loads\<close>, a model of
  \<open>json.loads\<close> on a \<open>str\<close> with its default arguments: the scanner for strings, numbers,
  literals, arrays and objects, the check for trailing data, and the text of the
  \<open>JSONDecodeError\<close> with line, column and offset. A scan returns the value and
  the text after it, or a message and the text at which the error is reported. The
  interpreter's limits on nesting depth and on the number of digits of an integer are
  not part of the model.
\<close>

type_synonym 'a scanned = "(pystr \<times> pystr) + ('a \<times> pystr)"

definition json_whitespace :: "nat \<Rightarrow> bool" where
  "json_whitespace c \<longleftrightarrow> c = 32 \<or> c = 9 \<or> c = 10 \<or> c = 13"

definition skip_ws :: "pystr \<Rightarrow> pystr" where
  "skip_ws s = dropWhile json_whitespace s"

definition is_digit :: "nat \<Rightarrow> bool" where
  "is_digit c \<longleftrightarrow> 48 \<le> c \<and> c \<le> 57"

definition hex_digit :: "nat \<Rightarrow> nat option" where
  "hex_digit c =
     (if 48 \<le> c \<and> c \<le> 57 then Some (c - 48)
      else if 97 \<le> c \<and> c \<le> 102 then Some (c - 87)
      else if 65 \<le> c \<and> c \<le> 70 then Some (c - 55)
      else None)"

definition hex4 :: "pystr \<Rightarrow> nat option" where
  "hex4 s =
     (case map hex_digit (take 4 s) of
        [Some a, Some b, Some c, Some d] \<Rightarrow> Some (((a * 16 + b) * 16 + c) * 16 + d)
      | _ \<Rightarrow> None)"

text \<open>The escapes after a backslash other than \<open>u\<close>.\<close>

definition BACKSLASH :: "nat \<Rightarrow> nat option" where
  "BACKSLASH c =
     (if c = 34 \<or> c = 92 \<or> c = 47 then Some c
      else if c = 98 then Some 8
      else if c = 102 then Some 12
      else if c = 110 then Some 10
      else if c = 114 then Some 13
      else if c = 116 then Some 9
      else None)"

definition append_char :: "nat \<Rightarrow> pystr scanned \<Rightarrow> pystr scanned" where
  "append_char c r = (case r of Inl e \<Rightarrow> Inl e | Inr (str, rest) \<Rightarrow> Inr (c # str, rest))"

text \<open>
  \<open>scanstring begin s\<close> scans a string whose opening quote is the first character of
  \<open>begin\<close> and whose content starts at \<open>s\<close>. Control characters are refused
  (\<open>strict=True\<close>); a high surrogate followed by an escaped low surrogate is joined.
\<close>

function scanstring :: "pystr \<Rightarrow> pystr \<Rightarrow> pystr scanned" where
  "scanstring begin [] = Inl (py ''Unterminated string starting at'', begin)"
| "scanstring begin (c # cs) =
     (if c = 34 then Inr ([], cs)
      else if c = 92 then
        (case cs of
           [] \<Rightarrow> Inl (py ''Unterminated string starting at'', begin)
         | e # es \<Rightarrow>
             if e \<noteq> 117 then
               (case BACKSLASH e of
                  None \<Rightarrow> Inl (py ''Invalid '' @ [92] @ py ''escape'', c # cs)
                | Some ch \<Rightarrow> append_char ch (scanstring begin es))
             else if length es \<le> 4 then
               Inl (py ''Invalid '' @ [92] @ py ''uXXXX escape'', e # es)
             else
               (case hex4 es of
                  None \<Rightarrow> Inl (py ''Invalid '' @ [92] @ py ''uXXXX escape'', e # es)
                | Some uni \<Rightarrow>
                    if 55296 \<le> uni \<and> uni \<le> 56319 \<and> 6 < length (drop 4 es)
                       \<and> take 2 (drop 4 es) = [92, 117] then
                      (case hex4 (drop 6 es) of
                         None \<Rightarrow> Inl (py ''Invalid '' @ [92] @ py ''uXXXX escape'', drop 5 es)
                       | Some uni2 \<Rightarrow>
                           if 56320 \<le> uni2 \<and> uni2 \<le> 57343 then
                             append_char (65536 + (uni - 55296) * 1024 + (uni2 - 56320))
                               (scanstring begin (drop 10 es))
                           else append_char uni (scanstring begin (drop 4 es)))
                    else append_char uni (scanstring begin (drop 4 es))))
      else if c \<le> 31 then Inl (py ''Invalid control character at'', c # cs)
      else append_char c (scanstring begin cs))"
  by pat_completeness auto
termination
  by (relation "measure (\<lambda>(begin, s). length s)") auto

declare scanstring.simps(2) [simp del]

text \<open>
  The number at the start of the text: an optional minus sign, the integer part (a single
  \<open>0\<close>, or digits that do not start with \<open>0\<close>), a fraction when a dot and a digit
  follow, and an exponent when \<open>e\<close> or \<open>E\<close>, an optional sign and a digit follow. Each part
  returns what it read and the text after it.
\<close>

definition scan_sign :: "pystr \<Rightarrow> pystr \<times> pystr" where
  "scan_sign s = (case s of [] \<Rightarrow> ([], s) | c # t \<Rightarrow> if c = 45 then ([c], t) else ([], s))"

definition scan_int :: "pystr \<Rightarrow> (pystr \<times> pystr) option" where
  "scan_int s =
     (case s of
        [] \<Rightarrow> None
      | c # t \<Rightarrow>
          if \<not> is_digit c then None
          else if c = 48 then Some ([c], t)
          else Some (c # takeWhile is_digit t, dropWhile is_digit t))"

definition scan_frac :: "pystr \<Rightarrow> pystr \<times> pystr" where
  "scan_frac s =
     (case s of
        p # d # u \<Rightarrow>
          if p = 46 \<and> is_digit d then (p # d # takeWhile is_digit u, dropWhile is_digit u)
          else ([], s)
      | _ \<Rightarrow> ([], s))"

definition scan_exp :: "pystr \<Rightarrow> pystr \<times> pystr" where
  "scan_exp s =
     (case s of
        [] \<Rightarrow> ([], s)
      | e # u \<Rightarrow>
          if e = 101 \<or> e = 69 then
            (let (sg, v) = (case u of
                              [] \<Rightarrow> ([], u)
                            | x # w \<Rightarrow> if x = 43 \<or> x = 45 then ([x], w) else ([], u))
             in case v of
                  [] \<Rightarrow> ([], s)
                | d # _ \<Rightarrow>
                    if is_digit d then (e # sg @ takeWhile is_digit v, dropWhile is_digit v)
                    else ([], s))
          else ([], s))"

text \<open>
  The literal of the number, whether it is a float (it has a fraction or an exponent), and
  the text after it.
\<close>

definition match_number :: "pystr \<Rightarrow> (pystr \<times> bool \<times> pystr) option" where
  "match_number s =
     (let (sign, s1) = scan_sign s
      in case scan_int s1 of
           None \<Rightarrow> None
         | Some (ip, s2) \<Rightarrow>
             (let (fp, s3) = scan_frac s2;
                  (ep, s4) = scan_exp s3
              in Some (sign @ ip @ fp @ ep, fp \<noteq> [] \<or> ep \<noteq> [], s4)))"

text \<open>\<open>int\<close> and \<open>float\<close> on the literal of a number.\<close>

definition nat_of_digits :: "pystr \<Rightarrow> nat" where
  "nat_of_digits ds = foldl (\<lambda>a d. a * 10 + (d - 48)) 0 ds"

definition int_of_literal :: "pystr \<Rightarrow> int" where
  "int_of_literal s =
     (case s of
        [] \<Rightarrow> 0
      | c # t \<Rightarrow> if c = 45 then - int (nat_of_digits t) else int (nat_of_digits s))"

definition float_of_literal :: "pystr \<Rightarrow> pyfloat" where
  "float_of_literal s =
     (let negative = (take 1 s = [45]);
          s1 = (if negative then drop 1 s else s);
          ip = takeWhile is_digit s1;
          s2 = dropWhile is_digit s1;
          fp = (if take 1 s2 = [46] then takeWhile is_digit (drop 1 s2) else []);
          s3 = (if take 1 s2 = [46] then dropWhile is_digit (drop 1 s2) else s2);
          ex = (case s3 of
                  [] \<Rightarrow> 0
                | _ # u \<Rightarrow> int_of_literal (if take 1 u = [43] then drop 1 u else u))
      in Decimal negative (nat_of_digits (ip @ fp)) (ex - int (length fp)))"

text \<open>
  \<open>scan_once\<close> reads one value, \<open>parse_object\<close> the members of an object from the
  position of a key, \<open>parse_array\<close> the elements of an array. The first argument bounds
  the number of nested calls; \<open>json_loads\<close> starts it above twice the length of the
  text, since a character is read between any two calls that follow a call of \<open>scan_once\<close>.
\<close>

fun scan_once :: "nat \<Rightarrow> pystr \<Rightarrow> json scanned"
  and parse_object :: "nat \<Rightarrow> (pystr \<times> json) list \<Rightarrow> pystr \<Rightarrow> json scanned"
  and parse_array :: "nat \<Rightarrow> json list \<Rightarrow> pystr \<Rightarrow> json scanned"
  where
  "scan_once 0 s = Inl (py ''maximum recursion depth exceeded'', s)"
| "scan_once (Suc n) s =
     (case s of
        [] \<Rightarrow> Inl (py ''Expecting value'', s)
      | c # cs \<Rightarrow>
          if c = 34 then
            (case scanstring s cs of Inl e \<Rightarrow> Inl e | Inr (str, r) \<Rightarrow> Inr (JString str, r))
          else if c = 123 then
            (case skip_ws cs of
               [] \<Rightarrow> parse_object n [] []
             | d # r \<Rightarrow> if d = 125 then Inr (JObject [], r)
                        else parse_object n [] (d # r))
          else if c = 91 then
            (case skip_ws cs of
               [] \<Rightarrow> parse_array n [] []
             | d # r \<Rightarrow> if d = 93 then Inr (JArray [], r)
                        else parse_array n [] (d # r))
          else if take 4 s = py ''null'' then Inr (JNull, drop 4 s)
          else if take 4 s = py ''true'' then Inr (JBool True, drop 4 s)
          else if take 5 s = py ''false'' then Inr (JBool False, drop 5 s)
          else if take 3 s = py ''NaN'' then Inr (JFloat NaN, drop 3 s)
          else if take 8 s = py ''Infinity'' then Inr (JFloat (Infinite False), drop 8 s)
          else if take 9 s = py ''-Infinity'' then Inr (JFloat (Infinite True), drop 9 s)
          else
            (case match_number s of
               None \<Rightarrow> Inl (py ''Expecting value'', s)
             | Some (literal, is_float, r) \<Rightarrow>
                 Inr (if is_float then JFloat (float_of_literal literal)
                      else JInt (int_of_literal literal), r)))"
| "parse_object 0 pairs s = Inl (py ''maximum recursion depth exceeded'', s)"
| "parse_object (Suc n) pairs s =
     (case s of
        [] \<Rightarrow> Inl (py ''Expecting property name enclosed in double quotes'', s)
      | c # cs \<Rightarrow>
          if c \<noteq> 34 then Inl (py ''Expecting property name enclosed in double quotes'', s)
          else
            (case scanstring s cs of
               Inl e \<Rightarrow> Inl e
             | Inr (key, r) \<Rightarrow>
                 (case skip_ws r of
                    [] \<Rightarrow> Inl (py ''Expecting '' @ [39, 58, 39] @ py '' delimiter'', [])
                  | d # r1 \<Rightarrow>
                      if d \<noteq> 58 then
                        Inl (py ''Expecting '' @ [39, 58, 39] @ py '' delimiter'', d # r1)
                      else
                        (case scan_once n (skip_ws r1) of
                           Inl e \<Rightarrow> Inl e
                         | Inr (val, r2) \<Rightarrow>
                             (case skip_ws r2 of
                                [] \<Rightarrow> Inl (py ''Expecting '' @ [39, 44, 39] @ py '' delimiter'', [])
                              | x # r3 \<Rightarrow>
                                  if x = 125 then Inr (JObject (AList.update key val pairs), r3)
                                  else if x = 44 then
                                    parse_object n (AList.update key val pairs)
                                      (skip_ws r3)
                                  else Inl (py ''Expecting '' @ [39, 44, 39] @ py '' delimiter'',
                                            x # r3))))))"
| "parse_array 0 vals s = Inl (py ''maximum recursion depth exceeded'', s)"
| "parse_array (Suc n) vals s =
     (case scan_once n s of
        Inl e \<Rightarrow> Inl e
      | Inr (val, r) \<Rightarrow>
          (case skip_ws r of
             [] \<Rightarrow> Inl (py ''Expecting '' @ [39, 44, 39] @ py '' delimiter'', [])
           | x # r1 \<Rightarrow>
               if x = 93 then Inr (JArray (vals @ [val]), r1)
               else if x = 44 then parse_array n (vals @ [val]) (skip_ws r1)
               else Inl (py ''Expecting '' @ [39, 44, 39] @ py '' delimiter'', x # r1)))"

text \<open>The text of a \<open>JSONDecodeError\<close> raised at offset \<open>pos\<close> of \<open>doc\<close>.\<close>

definition errmsg :: "pystr \<Rightarrow> pystr \<Rightarrow> nat \<Rightarrow> pystr" where
  "errmsg msg doc pos =
     (let lineno = count_list (take pos doc) 10 + 1;
          colno = length (takeWhile (\<lambda>c. c \<noteq> 10) (rev (take pos doc))) + 1
      in msg @ py '': line '' @ str_of_nat lineno @ py '' column '' @ str_of_nat colno
             @ py '' (char '' @ str_of_nat pos @ py '')'')"

definition json_loads :: "pystr \<Rightarrow> pystr + json" where
  "json_loads s =
     (if take 1 s = [65279] then
        Inl (errmsg (py ''Unexpected UTF-8 BOM (decode using utf-8-sig)'') s 0)
      else
        (case scan_once (2 * length s + 2) (skip_ws s) of
           Inl (msg, at) \<Rightarrow> Inl (errmsg msg s (length s - length at))
         | Inr (obj, r) \<Rightarrow>
             if skip_ws r \<noteq> [] then
               Inl (errmsg (py ''Extra data'') s (length s - length (skip_ws r)))
             else Inr obj))"

section \<open>The request handler\<close>

text \<open>The operations of Python the handler applies to the decoded body.\<close>

fun type_name :: "json \<Rightarrow> pystr" where
  "type_name JNull = py ''NoneType''"
| "type_name (JBool _) = py ''bool''"
| "type_name (JInt _) = py ''int''"
| "type_name (JFloat _) = py ''float''"
| "type_name (JString _) = py ''str''"
| "type_name (JArray _) = py ''list''"
| "type_name (JObject _) = py ''dict''"

text \<open>Truth value: \<open>None\<close>, \<open>False\<close>, zero and empty containers are false.\<close>

fun truthy :: "json \<Rightarrow> bool" where
  "truthy JNull = False"
| "truthy (JBool b) = b"
| "truthy (JInt i) = (i \<noteq> 0)"
| "truthy (JFloat f) = (\<not> float_is_zero f)"
| "truthy (JString s) = (s \<noteq> [])"
| "truthy (JArray xs) = (xs \<noteq> [])"
| "truthy (JObject kvs) = (kvs \<noteq> [])"

text \<open>
  \<open>key in data\<close>: a key of a dict, an element of a list, a substring of a string; any
  other operand raises \<open>TypeError\<close>.
\<close>

fun py_in :: "pystr \<Rightarrow> json \<Rightarrow> exn + bool" where
  "py_in key (JObject kvs) = Inr (key \<in> set (map fst kvs))"
| "py_in key (JArray xs) = Inr (JString key \<in> set xs)"
| "py_in key (JString s) = Inr (str_contains key s)"
| "py_in key v =
     Inl (TypeError (py ''argument of type '' @ [39] @ type_name v @ [39] @ py '' is not iterable''))"

text \<open>\<open>data[key]\<close> with a string key.\<close>

fun getitem :: "json \<Rightarrow> pystr \<Rightarrow> exn + json" where
  "getitem (JObject kvs) key =
     (case map_of kvs key of
        None \<Rightarrow> Inl (OtherException (py ''KeyError''))
      | Some v \<Rightarrow> Inr v)"
| "getitem (JArray xs) key =
     Inl (TypeError (py ''list indices must be integers or slices, not str''))"
| "getitem (JString s) key = Inl (TypeError (py ''string indices must be integers''))"
| "getitem v key =
     Inl (TypeError ([39] @ type_name v @ [39] @ py '' object is not subscriptable''))"

text \<open>\<open>value.strip()\<close>: only a string has the method.\<close>

fun strip_method :: "json \<Rightarrow> exn + pystr" where
  "strip_method (JString s) = Inr (strip s)"
| "strip_method v =
     Inl (AttributeError ([39] @ type_name v @ [39] @ py '' object has no attribute ''
            @ [39] @ py ''strip'' @ [39]))"

definition SYSTEM_PROMPT :: pystr where
  "SYSTEM_PROMPT =
     py ''You are a precise coding assistant. Return ONLY a JSON object with:\<newline>''
     @ py ''- \"html\": Valid HTML5\<newline>''
     @ py ''- \"css\": Valid CSS\<newline>''
     @ py ''- \"js\": Valid JavaScript\<newline>''
     @ py ''\<newline>''
     @ py ''Example:\<newline>''
     @ py ''```json\<newline>''
     @ py ''{\<newline>''
     @ py ''  \"html\": \"<button id='' @ [39] @ py ''btn'' @ [39] @ py ''>Click</button>\",\<newline>''
     @ py ''  \"css\": \"#btn { color: red; }\",\<newline>''
     @ py ''  \"js\": \"document.getElementById('' @ [39] @ py ''btn'' @ [39]
     @ py '').onclick = () => alert('' @ [39] @ py ''Hello'' @ [39] @ py '');\"\<newline>''
     @ py ''}\<newline>''
     @ py ''```''"

text \<open>
  What \<open>model.generate_content\<close> returns: an object whose property \<open>text\<close> gives the
  generated text or raises when it is read (the client library raises \<open>ValueError\<close> there
  for a response without usable content). The property depends on the object only, so
  reading it twice gives the same outcome.
\<close>

datatype response = Response "exn + pystr"

fun response_text :: "response \<Rightarrow> exn + pystr" where
  "response_text (Response t) = t"

text \<open>
  An HTTP response is a status code and a JSON body, as \<open>jsonify(...)\<close> with an optional
  status builds it. The outcome of a call of the handler is what the view function does,
  returning a response (\<open>Inr\<close>) or letting an exception escape (\<open>Inl\<close>), together with
  the prompts sent to the model, in order.
\<close>

record http_response =
  status :: nat
  body :: json

record outcome =
  reply :: "exn + http_response"
  model_calls :: "pystr list"

text \<open>
  The body of the \<open>try\<close> statement either returns a response or raises; when it raises,
  the handlers need to know whether the local variable \<open>response\<close> is bound, and to what.
\<close>

datatype try_result =
    Returned http_response
  | Raised exn "response option"

definition error_response :: "nat \<Rightarrow> pystr \<Rightarrow> http_response" where
  "error_response code message = \<lparr>status = code, body = JObject [(py ''error'', JString message)]\<rparr>"

text \<open>
  The \<open>try\<close> block of \<open>generate_code\<close>. Its parameters are what the surroundings give:
  \<open>get_json\<close> is the outcome of \<open>request.get_json()\<close> (the decoded body, or the exception
  Flask raises), \<open>generate_content\<close> is the model client (the response object, or the
  exception it raises) and \<open>loads\<close> is \<open>json.loads\<close>. Line 73 binds \<open>response\<close>; line 79
  reads \<open>response.text\<close>, which may raise, and passes the text on. The generation
  configuration is a constant of the call and is left out; log lines are not modelled.
\<close>

definition try_block ::
  "(exn + json) \<Rightarrow> (pystr \<Rightarrow> exn + response) \<Rightarrow> (pystr \<Rightarrow> pystr + json) \<Rightarrow> try_result \<times> pystr list"
  where
  "try_block get_json generate_content loads =
     (case get_json of
        Inl e \<Rightarrow> (Raised e None, [])
      | Inr data \<Rightarrow>
          if \<not> truthy data then
            (Returned (error_response 400 (py ''Missing '' @ [39] @ py ''prompt'' @ [39] @ py '' in request'')), [])
          else
            (case py_in (py ''prompt'') data of
               Inl e \<Rightarrow> (Raised e None, [])
             | Inr present \<Rightarrow>
                 if \<not> present then
                   (Returned (error_response 400
                      (py ''Missing '' @ [39] @ py ''prompt'' @ [39] @ py '' in request'')), [])
                 else
                   (case getitem data (py ''prompt'') of
                      Inl e \<Rightarrow> (Raised e None, [])
                    | Inr value \<Rightarrow>
                        (case strip_method value of
                           Inl e \<Rightarrow> (Raised e None, [])
                         | Inr prompt \<Rightarrow>
                             if prompt = [] then
                               (Returned (error_response 400 (py ''Prompt cannot be empty'')), [])
                             else
                               (let request_text =
                                      SYSTEM_PROMPT @ py ''\<newline>\<newline>User request: '' @ prompt
                                in case generate_content request_text of
                                     Inl e \<Rightarrow> (Raised e None, [request_text])
                                   | Inr response \<Rightarrow>
                                       (case response_text response of
                                          Inl e \<Rightarrow> (Raised e (Some response), [request_text])
                                        | Inr text \<Rightarrow>
                                            (case extract_json_from_text loads text of
                                               Inl e \<Rightarrow>
                                                 (Raised e (Some response), [request_text])
                                             | Inr generated_code \<Rightarrow>
                                                 (Returned \<lparr>status = 200, body = generated_code\<rparr>,
                                                  [request_text]))))))))"

text \<open>
  \<open>generate_code\<close>: the \<open>try\<close> block with its two handlers. \<open>except ValueError\<close> comes
  first. It builds the 502 body, whose \<open>raw_response\<close> is \<open>None\<close> when \<open>response\<close> is not
  bound and \<open>response.text\<close> otherwise; reading the property there (line 86) may raise
  again, and an exception raised inside a handler is not caught by the other handler: it
  leaves the view function. \<open>except Exception\<close> answers 500.
\<close>

definition generate_code ::
  "(exn + json) \<Rightarrow> (pystr \<Rightarrow> exn + response) \<Rightarrow> (pystr \<Rightarrow> pystr + json) \<Rightarrow> outcome"
  where
  "generate_code get_json generate_content loads =
     (case try_block get_json generate_content loads of
        (Returned r, calls) \<Rightarrow> \<lparr>reply = Inr r, model_calls = calls\<rparr>
      | (Raised e bound, calls) \<Rightarrow>
          if isinstance_ValueError e then
            (case bound of
               None \<Rightarrow>
                 \<lparr>reply = Inr \<lparr>status = 502,
                                body = JObject [(py ''error'',
                                                 JString (py ''AI returned malformed response'')),
                                                (py ''raw_response'', JNull)]\<rparr>,
                  model_calls = calls\<rparr>
             | Some response \<Rightarrow>
                 (case response_text response of
                    Inl e' \<Rightarrow> \<lparr>reply = Inl e', model_calls = calls\<rparr>
                  | Inr text \<Rightarrow>
                      \<lparr>reply = Inr \<lparr>status = 502,
                                     body = JObject [(py ''error'',
                                                      JString (py ''AI returned malformed response'')),
                                                     (py ''raw_response'', JString text)]\<rparr>,
                       model_calls = calls\<rparr>))
          else
            \<lparr>reply = Inr (error_response 500 (py ''Internal server error'')),
             model_calls = calls\<rparr>)"

text \<open>
  Model clients for concrete runs of the handler: one returns a response with a fixed
  text, one raises a fixed exception, one returns a response whose \<open>text\<close> raises a fixed
  exception.
\<close>

definition client_returning :: "pystr \<Rightarrow> pystr \<Rightarrow> exn + response" where
  "client_returning text request_text = Inr (Response (Inr text))"


definition client_unreadable :: "exn \<Rightarrow> pystr \<Rightarrow> exn + response" where
  "client_unreadable e request_text = Inr (Response (Inl e))"

section \<open>Properties of the regular-expression engine\<close>

text \<open>
  What the backtracking engine does on the parts of the pattern: the greedy \<open>.*\<close> followed
  by \<open>}\<close> ends first at the last \<open>}\<close>, the group must start at a \<open>{\<close>, and the parts
  before and after the group never consume a brace.
\<close>

lemma py_braces: "py ''{'' = [123]" "py ''}'' = [125]"
  by (simp_all add: py_def)

lemma hd_concat_map:
  assumes "concat (map f xs) \<noteq> []"
    and "\<And>x. x \<in> set xs \<Longrightarrow> f x \<noteq> [] \<Longrightarrow> P (hd (f x))"
  shows "P (hd (concat (map f xs)))"
  using assms
proof (induction xs)
  case Nil
  then show ?case by simp
next
  case (Cons x xs)
  show ?case
  proof (cases "f x = []")
    case True
    with Cons show ?thesis by simp
  next
    case False
    with Cons.prems(2) [of x] show ?thesis by simp
  qed
qed

lemma star_any_step:
  "backtrack (Star AnyChar) (x # t, g) = backtrack (Star AnyChar) (t, g) @ [(x # t, g)]"
  by (subst backtrack.simps(6)) simp

lemma star_any_nil: "backtrack (Star AnyChar) ([], g) = [([], g)]"
  by (subst backtrack.simps(6)) simp

lemma to_close_nil: "backtrack to_close ([], g) = []"
  by (simp add: to_close_def py_braces star_any_nil)

lemma to_close_cons:
  "backtrack to_close (x # t, g) =
     backtrack to_close (t, g) @ (if x = 125 then [(t, g)] else [])"
  by (simp add: to_close_def py_braces star_any_step)

lemma to_close_nonempty: "backtrack to_close (s, g) \<noteq> [] \<longleftrightarrow> 125 \<in> set s"
  by (induction s) (auto simp: to_close_nil to_close_cons)

lemma to_close_hd:
  "125 \<in> set s \<Longrightarrow>
   hd (backtrack to_close (s, g)) = (rev (takeWhile (\<lambda>c. c \<noteq> 125) (rev s)), g)"
proof (induction s)
  case Nil
  then show ?case by simp
next
  case (Cons x t)
  show ?case
  proof (cases "125 \<in> set t")
    case True
    then have "backtrack to_close (t, g) \<noteq> []" by (simp add: to_close_nonempty)
    then have "hd (backtrack to_close (x # t, g)) = hd (backtrack to_close (t, g))"
      by (simp add: to_close_cons)
    moreover have "takeWhile (\<lambda>c. c \<noteq> 125) (rev t @ [x]) = takeWhile (\<lambda>c. c \<noteq> 125) (rev t)"
      using True by (simp add: takeWhile_append1)
    ultimately show ?thesis using Cons.IH [OF True] by simp
  next
    case False
    with Cons.prems have x: "x = 125" by simp
    from False have "backtrack to_close (t, g) = []" using to_close_nonempty by blast
    moreover have "takeWhile (\<lambda>c. c \<noteq> 125) (rev t @ [x]) = rev t"
    proof -
      have "\<And>y. y \<in> set (rev t) \<Longrightarrow> y \<noteq> 125" using False by auto
      then have "takeWhile (\<lambda>c. c \<noteq> 125) (rev t @ [x]) = rev t @ takeWhile (\<lambda>c. c \<noteq> 125) [x]"
        by (rule takeWhile_append2)
      then show ?thesis using x by simp
    qed
    ultimately show ?thesis using x by (simp add: to_close_cons)
  qed
qed

lemma hd_concat_map_hd:
  "xs \<noteq> [] \<Longrightarrow> f (hd xs) \<noteq> [] \<Longrightarrow> hd (concat (map f xs)) = hd (f (hd xs))"
  by (cases xs) simp_all

lemma take_upto_last:
  "take (length s - length (takeWhile P (rev s))) s = rev (dropWhile P (rev s))"
proof -
  have "rev (takeWhile P (rev s) @ dropWhile P (rev s)) = s"
    by (simp only: takeWhile_dropWhile_id rev_rev_ident)
  then have s: "rev (dropWhile P (rev s)) @ rev (takeWhile P (rev s)) = s"
    by (simp only: rev_append)
  have "length (rev (dropWhile P (rev s))) + length (takeWhile P (rev s)) = length s"
    using arg_cong [OF s, of length] by (simp only: length_append length_rev)
  then have "length s - length (takeWhile P (rev s)) = length (rev (dropWhile P (rev s)))"
    by arith
  then show ?thesis using s by (metis append_eq_conv_conj)
qed

lemma object_part_nonempty:
  "backtrack object_part (s, g) \<noteq> [] \<longleftrightarrow> (\<exists>t. s = 123 # t \<and> 125 \<in> set t)"
proof (cases s)
  case Nil
  then show ?thesis by (simp add: object_part_def py_braces)
next
  case (Cons x t)
  then show ?thesis using to_close_nonempty [of t g] by (simp add: object_part_def py_braces)
qed

lemma object_part_hd:
  assumes "125 \<in> set t"
  shows "hd (backtrack object_part (123 # t, g)) =
     (rev (takeWhile (\<lambda>c. c \<noteq> 125) (rev t)),
      g(1 \<mapsto> rev (dropWhile (\<lambda>c. c \<noteq> 125) (rev (123 # t)))))"
proof -
  let ?P = "\<lambda>c::nat. c \<noteq> 125"
  have ne: "backtrack to_close (t, g) \<noteq> []" using assms by (simp add: to_close_nonempty)
  have tw: "takeWhile ?P (rev (123 # t)) = takeWhile ?P (rev t)"
    using assms by (simp add: takeWhile_append1)
  have "take (length (123 # t) - length (takeWhile ?P (rev (123 # t)))) (123 # t) =
        rev (dropWhile ?P (rev (123 # t)))"
    by (rule take_upto_last)
  then have sp: "take (length (123 # t) - length (rev (takeWhile ?P (rev t)))) (123 # t) =
        rev (dropWhile ?P (rev (123 # t)))"
    using tw by simp
  have "backtrack object_part (123 # t, g) =
        map (\<lambda>(s', g'). (s', g'(1 \<mapsto> take (length (123 # t) - length s') (123 # t))))
            (backtrack to_close (t, g))"
    by (simp add: object_part_def py_braces)
  then have "hd (backtrack object_part (123 # t, g)) =
        (\<lambda>(s', g'). (s', g'(1 \<mapsto> take (length (123 # t) - length s') (123 # t))))
            (hd (backtrack to_close (t, g)))"
    using ne by (simp add: hd_map)
  then show ?thesis using to_close_hd [OF assms, of g] sp by simp
qed

lemma star_space_cons:
  "backtrack (Star Space) (x # t, g) =
     (if isspace x then backtrack (Star Space) (t, g) else []) @ [(x # t, g)]"
  by (subst backtrack.simps(6)) simp

lemma star_space_nil: "backtrack (Star Space) ([], g) = [([], g)]"
  by (subst backtrack.simps(6)) simp

lemma star_space_elems:
  "(s', g') \<in> set (backtrack (Star Space) (s, g)) \<Longrightarrow>
   g' = g \<and> (\<exists>w. s = w @ s' \<and> (\<forall>c\<in>set w. isspace c))"
proof (induction s)
  case Nil
  then show ?case by (simp add: star_space_nil)
next
  case (Cons x t)
  from Cons.prems have "(s', g') = (x # t, g) \<or>
      (isspace x \<and> (s', g') \<in> set (backtrack (Star Space) (t, g)))"
    by (auto simp: star_space_cons split: if_splits)
  then show ?case
  proof
    assume "(s', g') = (x # t, g)"
    then show ?thesis by simp
  next
    assume a: "isspace x \<and> (s', g') \<in> set (backtrack (Star Space) (t, g))"
    with Cons.IH obtain w where w: "g' = g" "t = w @ s'" "\<forall>c\<in>set w. isspace c" by blast
    with a have "x # t = (x # w) @ s' \<and> (\<forall>c\<in>set (x # w). isspace c)" by simp
    with w(1) show ?thesis by blast
  qed
qed

lemma star_space_self: "(s, g) \<in> set (backtrack (Star Space) (s, g))"
  by (cases s) (simp_all add: star_space_nil star_space_cons)

lemma opt_lit_elems:
  assumes "(s', g') \<in> set (backtrack (Opt (Lit w)) (s, g))"
  shows "g' = g \<and> (s' = s \<or> s = w @ s')"
proof (cases "take (length w) s = w")
  case True
  then have "s = w @ drop (length w) s" by (metis append_take_drop_id)
  with assms True show ?thesis by auto
next
  case False
  with assms show ?thesis by simp
qed

lemma opt_self: "st \<in> set (backtrack (Opt r) st)"
  by simp

lemma tail_part_nonempty: "backtrack tail_part (s, g) \<noteq> []"
proof -
  have "(s, g) \<in> set (backtrack (Star Space) (s, g))" by (rule star_space_self)
  moreover have "backtrack (Opt (Lit (py ''```''))) (s, g) \<noteq> []" by simp
  ultimately show ?thesis unfolding tail_part_def by (auto simp del: backtrack.simps(1,5))
qed

lemma tail_part_groups: "m \<in> set (backtrack tail_part (s, g)) \<Longrightarrow> snd m = g"
proof -
  assume "m \<in> set (backtrack tail_part (s, g))"
  then obtain y where y: "y \<in> set (backtrack (Star Space) (s, g))"
      and m: "m \<in> set (backtrack (Opt (Lit (py ''```''))) y)"
    unfolding tail_part_def by (auto simp del: backtrack.simps(1,5))
  from y have "snd y = g" using star_space_elems [of "fst y" "snd y" s g] by simp
  moreover from m have "snd m = snd y"
    using opt_lit_elems [of "fst m" "snd m" "py ''```''" "fst y" "snd y"] by simp
  ultimately show ?thesis by simp
qed

lemma object_tail_nonempty:
  "backtrack (Seq object_part tail_part) (s, g) \<noteq> [] \<longleftrightarrow> (\<exists>t. s = 123 # t \<and> 125 \<in> set t)"
proof -
  have "backtrack (Seq object_part tail_part) (s, g) \<noteq> [] \<longleftrightarrow> backtrack object_part (s, g) \<noteq> []"
  proof
    assume "backtrack (Seq object_part tail_part) (s, g) \<noteq> []"
    then show "backtrack object_part (s, g) \<noteq> []" by auto
  next
    assume ne: "backtrack object_part (s, g) \<noteq> []"
    then obtain m ms where b: "backtrack object_part (s, g) = m # ms" by (cases "backtrack object_part (s, g)") auto
    have "backtrack tail_part m \<noteq> []" using tail_part_nonempty [of "fst m" "snd m"] by simp
    with b show "backtrack (Seq object_part tail_part) (s, g) \<noteq> []" by simp
  qed
  then show ?thesis by (simp only: object_part_nonempty)
qed

lemma object_tail_hd:
  assumes "125 \<in> set t"
  shows "snd (hd (backtrack (Seq object_part tail_part) (123 # t, g))) 1 = Some (upto_last_close (123 # t))"
proof -
  let ?bs = "backtrack object_part (123 # t, g)"
  have ne: "?bs \<noteq> []" using assms by (simp only: object_part_nonempty) simp
  have t: "backtrack tail_part (hd ?bs) \<noteq> []"
    using tail_part_nonempty [of "fst (hd ?bs)" "snd (hd ?bs)"] by simp
  have "hd (backtrack (Seq object_part tail_part) (123 # t, g)) = hd (backtrack tail_part (hd ?bs))"
    using hd_concat_map_hd [of ?bs "backtrack tail_part", OF ne t] by simp
  moreover have "hd (backtrack tail_part (hd ?bs)) \<in> set (backtrack tail_part (hd ?bs))"
    using t by simp
  then have "snd (hd (backtrack tail_part (hd ?bs))) = snd (hd ?bs)"
    using tail_part_groups [of _ "fst (hd ?bs)" "snd (hd ?bs)"] by simp
  ultimately show ?thesis using object_part_hd [OF assms, of g] by (simp add: upto_last_close_def)
qed

lemma not_space_open: "\<not> isspace 123"
  by (simp add: isspace_def)

lemma py_fence: "py ''```json'' = [96, 96, 96, 106, 115, 111, 110]"
  by (simp add: py_def)

lemma dropWhile_prefix_no_open:
  "123 \<notin> set w \<Longrightarrow> dropWhile (\<lambda>c. c \<noteq> 123) (w @ 123 # t) = 123 # t"
  by (induction w) auto

lemma rest_part_hd:
  assumes ne: "backtrack rest_part (s, g) \<noteq> []"
  shows "125 \<in> set (dropWhile (\<lambda>c. c \<noteq> 123) s) \<and>
         snd (hd (backtrack rest_part (s, g))) 1 = Some (upto_last_close (dropWhile (\<lambda>c. c \<noteq> 123) s))"
proof -
  let ?d = "dropWhile (\<lambda>c. c \<noteq> 123) s"
  let ?P = "\<lambda>m::mstate. 125 \<in> set ?d \<and> snd m 1 = Some (upto_last_close ?d)"
  have c: "concat (map (backtrack (Seq object_part tail_part)) (backtrack (Star Space) (s, g))) \<noteq> []"
    using ne by (simp add: rest_part_def)
  have "?P (hd (concat (map (backtrack (Seq object_part tail_part)) (backtrack (Star Space) (s, g)))))"
  proof (rule hd_concat_map [OF c])
    fix y assume y: "y \<in> set (backtrack (Star Space) (s, g))"
      and n: "backtrack (Seq object_part tail_part) y \<noteq> []"
    from y obtain w where w: "snd y = g" "s = w @ fst y" "\<forall>c\<in>set w. isspace c"
      using star_space_elems [of "fst y" "snd y" s g] by auto
    from n obtain t where t: "fst y = 123 # t" "125 \<in> set t"
      using object_tail_nonempty [of "fst y" "snd y"] by auto
    from w(3) have "123 \<notin> set w" using not_space_open by blast
    with w(2) t(1) have d: "?d = 123 # t" by (simp add: dropWhile_prefix_no_open)
    have "snd (hd (backtrack (Seq object_part tail_part) (123 # t, snd y))) 1 = Some (upto_last_close (123 # t))"
      by (rule object_tail_hd [OF t(2)])
    moreover have "y = (123 # t, snd y)" using t(1) by (metis prod.collapse)
    ultimately have "snd (hd (backtrack (Seq object_part tail_part) y)) 1 = Some (upto_last_close (123 # t))"
      by simp
    with d t(2) show "?P (hd (backtrack (Seq object_part tail_part) y))" by simp
  qed
  then show ?thesis by (simp add: rest_part_def)
qed

lemma pattern_split:
  "backtrack json_pattern st =
     concat (map (backtrack rest_part) (backtrack (Opt (Lit (py ''```json''))) st))"
  by (simp add: json_pattern_def rest_part_def object_part_def to_close_def tail_part_def
           del: backtrack.simps(1,5))

lemma pattern_hd:
  assumes ne: "backtrack json_pattern (s, g) \<noteq> []"
  shows "125 \<in> set (dropWhile (\<lambda>c. c \<noteq> 123) s) \<and>
         snd (hd (backtrack json_pattern (s, g))) 1 =
           Some (upto_last_close (dropWhile (\<lambda>c. c \<noteq> 123) s))"
proof -
  let ?d = "dropWhile (\<lambda>c. c \<noteq> 123) s"
  let ?P = "\<lambda>m::mstate. 125 \<in> set ?d \<and> snd m 1 = Some (upto_last_close ?d)"
  let ?O = "Opt (Lit (py ''```json''))"
  have c: "concat (map (backtrack rest_part) (backtrack ?O (s, g))) \<noteq> []"
    using ne unfolding pattern_split .
  have "?P (hd (concat (map (backtrack rest_part) (backtrack ?O (s, g)))))"
  proof (rule hd_concat_map [OF c])
    fix y assume y: "y \<in> set (backtrack ?O (s, g))" and n: "backtrack rest_part y \<noteq> []"
    from y have yy: "snd y = g" "fst y = s \<or> s = py ''```json'' @ fst y"
      using opt_lit_elems [of "fst y" "snd y" "py ''```json''" s g] by auto
    have r: "125 \<in> set (dropWhile (\<lambda>c. c \<noteq> 123) (fst y)) \<and>
       snd (hd (backtrack rest_part (fst y, snd y))) 1 =
         Some (upto_last_close (dropWhile (\<lambda>c. c \<noteq> 123) (fst y)))"
      using n by (intro rest_part_hd) simp
    have "dropWhile (\<lambda>c. c \<noteq> 123) (fst y) = ?d"
      using yy(2)
    proof
      assume "fst y = s" then show ?thesis by simp
    next
      assume "s = py ''```json'' @ fst y"
      then have "?d = dropWhile (\<lambda>c. c \<noteq> 123) (py ''```json'' @ fst y)" by simp
      then show ?thesis by (simp add: py_fence)
    qed
    with r show "?P (hd (backtrack rest_part y))" by simp
  qed
  then show ?thesis unfolding pattern_split .
qed

lemma pattern_at_open:
  assumes "125 \<in> set t"
  shows "backtrack json_pattern (123 # t, g) \<noteq> []"
proof -
  let ?s = "123 # t"
  have a: "(?s, g) \<in> set (backtrack (Opt (Lit (py ''```json''))) (?s, g))" by (rule opt_self)
  have b: "(?s, g) \<in> set (backtrack (Star Space) (?s, g))" by (rule star_space_self)
  have "backtrack (Seq object_part tail_part) (?s, g) \<noteq> []"
    using assms by (simp only: object_tail_nonempty) simp
  with b have "backtrack rest_part (?s, g) \<noteq> []"
    unfolding rest_part_def by (auto simp del: backtrack.simps(1,5))
  with a show ?thesis
    unfolding pattern_split by (auto simp del: backtrack.simps(1,5))
qed

lemma re_search_pattern:
  "(re_search json_pattern text = None \<longleftrightarrow> 125 \<notin> set (dropWhile (\<lambda>c. c \<noteq> 123) text)) \<and>
   (\<forall>m. re_search json_pattern text = Some m \<longrightarrow>
        group m 1 = Some (upto_last_close (dropWhile (\<lambda>c. c \<noteq> 123) text)))"
proof (induction "text")
  case Nil
  have "backtrack json_pattern ([], Map.empty) = []"
    using pattern_hd [of "[]" Map.empty] by auto
  then show ?case by simp
next
  case (Cons x t)
  show ?case
  proof (cases "backtrack json_pattern (x # t, Map.empty)")
    case (Cons m ms)
    then have "backtrack json_pattern (x # t, Map.empty) \<noteq> []" by simp
    from pattern_hd [OF this] Cons show ?thesis by (simp add: group_def)
  next
    case Nil
    then have s: "re_search json_pattern (x # t) = re_search json_pattern t" by simp
    show ?thesis
    proof (cases "x = 123")
      case True
      with Nil have no: "125 \<notin> set t" using pattern_at_open [of t Map.empty] by auto
      have "set (dropWhile (\<lambda>c. c \<noteq> 123) t) \<subseteq> set t" by (rule set_dropWhileD [THEN subsetI])
      with no have "125 \<notin> set (dropWhile (\<lambda>c. c \<noteq> 123) t)" by auto
      with Cons.IH have "re_search json_pattern t = None" by simp
      with s True no show ?thesis by simp
    next
      case False
      with s Cons.IH show ?thesis by simp
    qed
  qed
qed

lemma search_brace_span:
  "map_option (\<lambda>m. group m 1) (re_search json_pattern text) = map_option Some (brace_span text)"
proof (cases "re_search json_pattern text")
  case None
  then show ?thesis using re_search_pattern [of "text"]
    by (simp add: brace_span_def from_first_open_def)
next
  case (Some m)
  then have "125 \<in> set (from_first_open text)"
    using re_search_pattern [of "text"] by (auto simp: from_first_open_def)
  moreover from Some have "group m 1 = Some (upto_last_close (from_first_open text))"
    using re_search_pattern [of "text"] by (simp add: from_first_open_def)
  ultimately show ?thesis using Some by (simp add: brace_span_def)
qed


lemma extract_span:
  assumes "brace_span text = Some span"
  shows "extract_json_from_text loads text =
     (case loads span of
        Inl e \<Rightarrow> Inl (ValueError (py ''Invalid JSON format: '' @ e))
      | Inr obj \<Rightarrow> Inr obj)"
proof -
  obtain m where m: "re_search json_pattern text = Some m" and g: "group m 1 = Some span"
    using search_brace_span [of "text"] assms by (cases "re_search json_pattern text") auto
  then show ?thesis by (simp add: extract_json_from_text_def)
qed


lemma upto_last_close_object:
  assumes "125 \<notin> set post"
  shows "upto_last_close (ob @ [125] @ post) = ob @ [125]"
proof -
  have "\<And>y. y \<in> set (rev post) \<Longrightarrow> y \<noteq> 125" using assms by auto
  then have "dropWhile (\<lambda>c. c \<noteq> 125) (rev post @ 125 # rev ob) =
             dropWhile (\<lambda>c. c \<noteq> 125) (125 # rev ob)"
    by (rule dropWhile_append2)
  then show ?thesis by (simp add: upto_last_close_def)
qed

lemma brace_span_object:
  assumes "123 \<notin> set pre" and "125 \<notin> set post"
  shows "brace_span (pre @ (123 # mid @ [125]) @ post) = Some (123 # mid @ [125])"
proof -
  have f: "from_first_open (pre @ (123 # mid @ [125]) @ post) = (123 # mid) @ [125] @ post"
    using assms(1) dropWhile_prefix_no_open [of pre "mid @ [125] @ post"]
    by (simp add: from_first_open_def)
  have "upto_last_close ((123 # mid) @ [125] @ post) = (123 # mid) @ [125]"
    using assms(2) by (rule upto_last_close_object)
  with f show ?thesis by (simp add: brace_span_def)
qed

section \<open>Properties of extract\_json\_from\_text\<close>

text \<open>
  Claim C7. The span captured by the pattern runs from the first \<open>{\<close> of the text to the
  last \<open>}\<close> of the text, across lines, whatever stands before and after it (a
  \<open>```json\<close> marker, a closing \<open>```\<close>, prose); the search finds nothing exactly when no
  \<open>}\<close> follows the first \<open>{\<close>.
\<close>

theorem captured_span_first_open_to_last_close:
  "map_option (\<lambda>m. group m 1) (re_search json_pattern text) = map_option Some (brace_span text)"
  by (rule search_brace_span)

text \<open>
  On a text with a fenced object between two pieces of prose the group is the object.
\<close>

theorem captured_span_witness:
  "map_option (\<lambda>m. group m 1)
     (re_search json_pattern (py ''Sure: ```json {\"a\": 1} ``` done'')) =
   Some (Some (py ''{\"a\": 1}''))"
proof -
  have "brace_span (py ''Sure: ```json {\"a\": 1} ``` done'') = Some (py ''{\"a\": 1}'')"
    by code_simp
  then show ?thesis
    using captured_span_first_open_to_last_close [of "py ''Sure: ```json {\"a\": 1} ``` done''"]
    by simp
qed



text \<open>
  Claim C1, as amended. When the text is a well-formed JSON object with prose or fence
  markers around it, the prose before it contains no \<open>{\<close> and the prose after it contains
  no \<open>}\<close>, the function returns exactly the value the decoder gives for the object.
\<close>

theorem extract_returns_parsed_object:
  assumes "123 \<notin> set pre" and "125 \<notin> set post" and "loads (123 # mid @ [125]) = Inr obj"
  shows "extract_json_from_text loads (pre @ (123 # mid @ [125]) @ post) = Inr obj"
  using extract_span [OF brace_span_object [OF assms(1,2)], of loads mid] assms(3) by simp

text \<open>
  The scenario of the specification: a fenced object between two lines of prose. The
  object itself has braces inside a string.
\<close>

theorem extract_returns_parsed_object_witness:
  "extract_json_from_text json_loads
     (py ''Here it is:\<newline>```json\<newline>{\"html\": \"<button>Hi</button>\", \"css\": \"button{color:red}\", \"js\": \"\"}\<newline>```\<newline>Enjoy!'') =
   Inr (JObject [(py ''html'', JString (py ''<button>Hi</button>'')),
                 (py ''css'', JString (py ''button{color:red}'')),
                 (py ''js'', JString [])])"
proof -
  have h1: "123 \<notin> set (py ''Here it is:\<newline>```json\<newline>'')" by (simp add: py_def)
  have h2: "125 \<notin> set (py ''\<newline>```\<newline>Enjoy!'')" by (simp add: py_def)
  have h3: "json_loads (123 # py ''\"html\": \"<button>Hi</button>\", \"css\": \"button{color:red}\", \"js\": \"\"'' @ [125]) =
    Inr (JObject [(py ''html'', JString (py ''<button>Hi</button>'')),
                  (py ''css'', JString (py ''button{color:red}'')),
                  (py ''js'', JString [])])"
    by code_simp
  from extract_returns_parsed_object
         [of "py ''Here it is:\<newline>```json\<newline>''" "py ''\<newline>```\<newline>Enjoy!''" json_loads
             "py ''\"html\": \"<button>Hi</button>\", \"css\": \"button{color:red}\", \"js\": \"\"''",
          OF h1 h2 h3]
  show ?thesis by (simp add: py_def)
qed

text \<open>
  Claim C1 as it is stated does not hold: a text with a single well-formed object and a
  \<open>}\<close> in the prose after it makes the span run to that last \<open>}\<close>, and decoding fails.
\<close>

theorem extract_single_object_counterexample:
  "json_loads (py ''{\"a\": 1}'') = Inr (JObject [(py ''a'', JInt 1)]) \<and>
   extract_json_from_text json_loads (py ''Result: {\"a\": 1} (mind the brace })'') =
     Inl (ValueError (py ''Invalid JSON format: Extra data: line 1 column 10 (char 9)''))"
proof -
  have a: "json_loads (py ''{\"a\": 1}'') = Inr (JObject [(py ''a'', JInt 1)])" by code_simp
  have b: "brace_span (py ''Result: {\"a\": 1} (mind the brace })'') =
           Some (py ''{\"a\": 1} (mind the brace }'')"
    by code_simp
  have c: "json_loads (py ''{\"a\": 1} (mind the brace }'') =
           Inl (py ''Extra data: line 1 column 10 (char 9)'')"
    by code_simp
  from extract_span [OF b, of json_loads] a c show ?thesis by (simp add: py_def)
qed

section \<open>Properties of the decoder\<close>

text \<open>
  Every successful scan consumes at least one character, and the bound on nested calls
  that \<open>json_loads\<close> starts with is never used up: the scan it runs does not end in
  the error that stands for an exhausted bound.
\<close>

lemma append_char_Inr:
  "append_char c x = Inr (str, r) \<Longrightarrow> \<exists>str'. x = Inr (str', r)"
  by (auto simp: append_char_def split: sum.splits prod.splits)

lemma scanstring_shorter:
  "scanstring b0 s = Inr (str, r) \<Longrightarrow> length r < length s"
proof (induction s arbitrary: str r rule: length_induct)
  case (1 s)
  have ih: "\<And>t str' r'. length t < length s \<Longrightarrow> scanstring b0 t = Inr (str', r') \<Longrightarrow>
              length r' < length t"
    using "1.IH" by blast
  show ?case
  proof (cases s)
    case Nil
    with "1.prems" show ?thesis by simp
  next
    case (Cons c cs)
    from "1.prems" Cons have
      "r = cs \<or> (\<exists>t str'. length t < length s \<and> scanstring b0 t = Inr (str', r))"
      by (auto simp: scanstring.simps(2) split: if_splits list.splits option.splits
               dest!: append_char_Inr)
    then show ?thesis
    proof
      assume "r = cs" with Cons show ?thesis by simp
    next
      assume "\<exists>t str'. length t < length s \<and> scanstring b0 t = Inr (str', r)"
      then obtain t str' where t: "length t < length s" "scanstring b0 t = Inr (str', r)"
        by blast
      from ih [OF t] t(1) show ?thesis by simp
    qed
  qed
qed

lemma length_dropWhile_le': "length (dropWhile P xs) \<le> length xs"
  by (rule length_dropWhile_le)

lemma skip_ws_le: "length (skip_ws s) \<le> length s"
  by (simp add: skip_ws_def length_dropWhile_le)

lemma scan_sign_le: "scan_sign s = (l, r) \<Longrightarrow> length r \<le> length s"
  by (auto simp: scan_sign_def split: list.splits if_splits)

lemma scan_int_shorter: "scan_int s = Some (l, r) \<Longrightarrow> length r < length s"
  by (auto simp: scan_int_def less_Suc_eq_le length_dropWhile_le split: list.splits if_splits)

lemma scan_frac_le: "scan_frac s = (l, r) \<Longrightarrow> length r \<le> length s"
  by (auto simp: scan_frac_def le_SucI length_dropWhile_le split: list.splits if_splits)

lemma scan_exp_le: "scan_exp s = (l, r) \<Longrightarrow> length r \<le> length s"
  by (auto simp: scan_exp_def Let_def le_SucI length_dropWhile_le
           split: list.splits if_splits prod.splits)

lemma match_number_shorter:
  assumes "match_number s = Some (l, f, r)"
  shows "length r < length s"
proof -
  obtain sg s1 where sg: "scan_sign s = (sg, s1)" by (cases "scan_sign s")
  from assms sg obtain ip s2 where ip: "scan_int s1 = Some (ip, s2)"
    by (auto simp: match_number_def split: option.splits)
  obtain fp s3 where fp: "scan_frac s2 = (fp, s3)" by (cases "scan_frac s2")
  obtain ep s4 where ep: "scan_exp s3 = (ep, s4)" by (cases "scan_exp s3")
  from assms sg ip fp ep have "r = s4" by (simp add: match_number_def)
  with scan_sign_le [OF sg] scan_int_shorter [OF ip] scan_frac_le [OF fp] scan_exp_le [OF ep]
  show ?thesis by simp
qed

lemma drop_literal_shorter: "take k s = w \<Longrightarrow> w \<noteq> [] \<Longrightarrow> length (drop k s) < length s"
  by (cases "k = 0"; cases s) auto

lemma skip_ws_Cons_le: "skip_ws s = d # r \<Longrightarrow> length r < length s"
  using skip_ws_le [of s] by simp

lemma py_nonempty:
  "py ''null'' \<noteq> []" "py ''true'' \<noteq> []" "py ''false'' \<noteq> []" "py ''NaN'' \<noteq> []"
  "py ''Infinity'' \<noteq> []" "py ''-Infinity'' \<noteq> []"
  by (simp_all add: py_def)

lemma progress_scan_once:
  assumes obj: "\<And>pairs t v r. parse_object n pairs t = Inr (v, r) \<Longrightarrow> length r < length t"
    and arr: "\<And>vals t v r. parse_array n vals t = Inr (v, r) \<Longrightarrow> length r < length t"
    and run: "scan_once (Suc n) s = Inr (v, r)"
  shows "length r < length s"
proof (cases s)
  case Nil
  with run show ?thesis by simp
next
  case (Cons c cs)
  consider (str) "c = 34" | (ob) "c = 123" | (ar) "c = 91" | (other) "c \<noteq> 34" "c \<noteq> 123" "c \<noteq> 91"
    by blast
  then show ?thesis
  proof cases
    case str
    with run Cons obtain str' where "scanstring s cs = Inr (str', r)"
      by (auto split: sum.splits)
    from scanstring_shorter [OF this] Cons show ?thesis by simp
  next
    case ob
    show ?thesis
    proof (cases "skip_ws cs")
      case Nil
      with run Cons ob have "parse_object n [] [] = Inr (v, r)" by simp
      from obj [OF this] show ?thesis by simp
    next
      case (Cons d r')
      note sk = this
      show ?thesis
      proof (cases "d = 125")
        case True
        with run \<open>s = c # cs\<close> ob sk have "r = r'" by simp
        with skip_ws_Cons_le [OF sk] \<open>s = c # cs\<close> show ?thesis by simp
      next
        case False
        with run \<open>s = c # cs\<close> ob sk have "parse_object n [] (d # r') = Inr (v, r)" by simp
        from obj [OF this] skip_ws_le [of cs] sk \<open>s = c # cs\<close> show ?thesis by simp
      qed
    qed
  next
    case ar
    show ?thesis
    proof (cases "skip_ws cs")
      case Nil
      with run Cons ar have "parse_array n [] [] = Inr (v, r)" by simp
      from arr [OF this] show ?thesis by simp
    next
      case (Cons d r')
      note sk = this
      show ?thesis
      proof (cases "d = 93")
        case True
        with run \<open>s = c # cs\<close> ar sk have "r = r'" by simp
        with skip_ws_Cons_le [OF sk] \<open>s = c # cs\<close> show ?thesis by simp
      next
        case False
        with run \<open>s = c # cs\<close> ar sk have "parse_array n [] (d # r') = Inr (v, r)" by simp
        from arr [OF this] skip_ws_le [of cs] sk \<open>s = c # cs\<close> show ?thesis by simp
      qed
    qed
  next
    case other
    with run Cons have
      "(\<exists>k w. take k s = w \<and> w \<noteq> [] \<and> r = drop k s) \<or> (\<exists>l f. match_number s = Some (l, f, r))"
      by (auto simp: py_nonempty split: if_splits option.splits)
    then show ?thesis using drop_literal_shorter match_number_shorter by blast
  qed
qed

lemma progress_parse_array:
  assumes scan: "\<And>t v r. scan_once n t = Inr (v, r) \<Longrightarrow> length r < length t"
    and arr: "\<And>vals t v r. parse_array n vals t = Inr (v, r) \<Longrightarrow> length r < length t"
    and run: "parse_array (Suc n) vals s = Inr (v, r)"
  shows "length r < length s"
proof -
  from run obtain val r0 where v: "scan_once n s = Inr (val, r0)"
    by (auto split: sum.splits)
  from run v obtain x r1 where sk: "skip_ws r0 = x # r1"
    by (cases "skip_ws r0") auto
  have l: "length r1 < length s"
    using scan [OF v] skip_ws_Cons_le [OF sk] by simp
  from run v sk have "r = r1 \<or> parse_array n (vals @ [val]) (skip_ws r1) = Inr (v, r)"
    by (auto split: if_splits)
  then show ?thesis
  proof
    assume "r = r1" with l show ?thesis by simp
  next
    assume "parse_array n (vals @ [val]) (skip_ws r1) = Inr (v, r)"
    from arr [OF this] skip_ws_le [of r1] l show ?thesis by simp
  qed
qed

lemma progress_parse_object:
  assumes scan: "\<And>t v r. scan_once n t = Inr (v, r) \<Longrightarrow> length r < length t"
    and obj: "\<And>pairs t v r. parse_object n pairs t = Inr (v, r) \<Longrightarrow> length r < length t"
    and run: "parse_object (Suc n) pairs s = Inr (v, r)"
  shows "length r < length s"
proof -
  from run obtain cs where s: "s = 34 # cs"
    by (cases s) (auto split: if_splits)
  from run s obtain key r0 where k: "scanstring s cs = Inr (key, r0)"
    by (auto split: sum.splits)
  from run s k obtain r1 where c: "skip_ws r0 = 58 # r1"
    by (cases "skip_ws r0") (auto split: if_splits)
  from run s k c obtain val r2 where v: "scan_once n (skip_ws r1) = Inr (val, r2)"
    by (auto split: sum.splits)
  from run s k c v obtain x r3 where sk: "skip_ws r2 = x # r3"
    by (cases "skip_ws r2") auto
  have l: "length r3 < length s"
    using scanstring_shorter [OF k] skip_ws_Cons_le [OF c] scan [OF v] skip_ws_le [of r1]
      skip_ws_Cons_le [OF sk] s
    by simp
  from run s k c v sk have
    "r = r3 \<or> parse_object n (AList.update key val pairs) (skip_ws r3) = Inr (v, r)"
    by (auto split: if_splits)
  then show ?thesis
  proof
    assume "r = r3" with l show ?thesis by simp
  next
    assume "parse_object n (AList.update key val pairs) (skip_ws r3) = Inr (v, r)"
    from obj [OF this] skip_ws_le [of r3] l show ?thesis by simp
  qed
qed

lemma progress:
  "(\<forall>s v r. scan_once n s = Inr (v, r) \<longrightarrow> length r < length s) \<and>
   (\<forall>pairs s v r. parse_object n pairs s = Inr (v, r) \<longrightarrow> length r < length s) \<and>
   (\<forall>vals s v r. parse_array n vals s = Inr (v, r) \<longrightarrow> length r < length s)"
proof (induction n)
  case 0
  show ?case by simp
next
  case (Suc n)
  then have scan: "\<And>t v r. scan_once n t = Inr (v, r) \<Longrightarrow> length r < length t"
    and obj: "\<And>pairs t v r. parse_object n pairs t = Inr (v, r) \<Longrightarrow> length r < length t"
    and arr: "\<And>vals t v r. parse_array n vals t = Inr (v, r) \<Longrightarrow> length r < length t"
    by blast+
  have a: "length r < length s" if "scan_once (Suc n) s = Inr (v, r)" for s v r
    using obj arr that by (rule progress_scan_once)
  have b: "length r < length s" if "parse_object (Suc n) pairs s = Inr (v, r)" for pairs s v r
    using scan obj that by (rule progress_parse_object)
  have c: "length r < length s" if "parse_array (Suc n) vals s = Inr (v, r)" for vals s v r
    using scan arr that by (rule progress_parse_array)
  from a b c show ?case by blast
qed

lemma scan_once_shorter: "scan_once n s = Inr (v, r) \<Longrightarrow> length r < length s"
  using progress [of n] by blast

lemma append_char_Inl: "append_char c x = Inl e \<Longrightarrow> x = Inl e"
  by (auto simp: append_char_def split: sum.splits prod.splits)

lemma scanstring_message:
  "scanstring b0 s = Inl (m, at) \<Longrightarrow> m \<noteq> py ''maximum recursion depth exceeded''"
proof (induction s arbitrary: m at rule: length_induct)
  case (1 s)
  have ih: "\<And>t m' at'. length t < length s \<Longrightarrow> scanstring b0 t = Inl (m', at') \<Longrightarrow>
              m' \<noteq> py ''maximum recursion depth exceeded''"
    using "1.IH" by blast
  show ?case
  proof (cases s)
    case Nil
    with "1.prems" show ?thesis by (auto simp: py_def)
  next
    case (Cons c cs)
    from "1.prems" Cons have
      "m \<in> {py ''Unterminated string starting at'', py ''Invalid '' @ [92] @ py ''escape'',
             py ''Invalid '' @ [92] @ py ''uXXXX escape'', py ''Invalid control character at''}
       \<or> (\<exists>t. length t < length s \<and> scanstring b0 t = Inl (m, at))"
      by (auto simp: scanstring.simps(2) split: if_splits list.splits option.splits
               dest!: append_char_Inl)
    then show ?thesis
    proof
      assume "m \<in> {py ''Unterminated string starting at'', py ''Invalid '' @ [92] @ py ''escape'',
             py ''Invalid '' @ [92] @ py ''uXXXX escape'', py ''Invalid control character at''}"
      then show ?thesis by (auto simp: py_def)
    next
      assume "\<exists>t. length t < length s \<and> scanstring b0 t = Inl (m, at)"
      then obtain t where "length t < length s" "scanstring b0 t = Inl (m, at)" by blast
      then show ?thesis by (rule ih)
    qed
  qed
qed

lemma other_messages:
  "py ''Expecting value'' \<noteq> py ''maximum recursion depth exceeded''"
  "py ''Expecting property name enclosed in double quotes'' \<noteq> py ''maximum recursion depth exceeded''"
  "py ''Expecting '' @ [39, 58, 39] @ py '' delimiter'' \<noteq> py ''maximum recursion depth exceeded''"
  "py ''Expecting '' @ [39, 44, 39] @ py '' delimiter'' \<noteq> py ''maximum recursion depth exceeded''"
  by (simp_all add: py_def)

lemma fuel_scan_once:
  assumes obj: "\<And>pairs t at. 2 * length t + 2 \<le> n \<Longrightarrow>
                  parse_object n pairs t \<noteq> Inl (py ''maximum recursion depth exceeded'', at)"
    and arr: "\<And>vals t at. 2 * length t + 2 \<le> n \<Longrightarrow>
                  parse_array n vals t \<noteq> Inl (py ''maximum recursion depth exceeded'', at)"
    and fuel: "2 * length s + 1 \<le> Suc n"
  shows "scan_once (Suc n) s \<noteq> Inl (py ''maximum recursion depth exceeded'', at)"
proof (cases s)
  case Nil
  then show ?thesis by (simp add: other_messages)
next
  case (Cons c cs)
  have sub: "2 * length t + 2 \<le> n" if "length t \<le> length cs" for t :: pystr
    using that fuel Cons by simp
  consider (str) "c = 34" | (ob) "c = 123" | (ar) "c = 91" | (other) "c \<noteq> 34" "c \<noteq> 123" "c \<noteq> 91"
    by blast
  then show ?thesis
  proof cases
    case str
    then show ?thesis using Cons scanstring_message [of s cs]
      by (auto split: sum.splits)
  next
    case ob
    show ?thesis
    proof (cases "skip_ws cs")
      case Nil
      then show ?thesis using Cons ob obj [OF sub [of "[]"]] by simp
    next
      case sk: (Cons d r')
      have "length (d # r') \<le> length cs" using skip_ws_le [of cs] sk by simp
      from obj [OF sub [OF this]] show ?thesis using Cons ob sk by simp
    qed
  next
    case ar
    show ?thesis
    proof (cases "skip_ws cs")
      case Nil
      then show ?thesis using Cons ar arr [OF sub [of "[]"]] by simp
    next
      case sk: (Cons d r')
      have "length (d # r') \<le> length cs" using skip_ws_le [of cs] sk by simp
      from arr [OF sub [OF this]] show ?thesis using Cons ar sk by simp
    qed
  next
    case other
    then show ?thesis using Cons
      by (auto simp: other_messages split: option.splits)
  qed
qed

lemma fuel_parse_array:
  assumes scan: "\<And>t at. 2 * length t + 1 \<le> n \<Longrightarrow>
                  scan_once n t \<noteq> Inl (py ''maximum recursion depth exceeded'', at)"
    and arr: "\<And>vals t at. 2 * length t + 2 \<le> n \<Longrightarrow>
                  parse_array n vals t \<noteq> Inl (py ''maximum recursion depth exceeded'', at)"
    and fuel: "2 * length s + 2 \<le> Suc n"
  shows "parse_array (Suc n) vals s \<noteq> Inl (py ''maximum recursion depth exceeded'', at)"
proof
  assume run: "parse_array (Suc n) vals s = Inl (py ''maximum recursion depth exceeded'', at)"
  have s1: "2 * length s + 1 \<le> n" using fuel by simp
  from run scan [OF s1] obtain val r0 where v: "scan_once n s = Inr (val, r0)"
    by (cases "scan_once n s") auto
  from run v obtain x r1 where sk: "skip_ws r0 = x # r1"
    by (cases "skip_ws r0") (auto simp: py_def)
  have "length r1 < length s"
    using scan_once_shorter [OF v] skip_ws_Cons_le [OF sk] by simp
  then have "2 * length (skip_ws r1) + 2 \<le> n"
    using skip_ws_le [of r1] fuel by simp
  from arr [OF this] run v sk show False
    by (auto simp: py_def split: if_splits)
qed

lemma fuel_parse_object:
  assumes scan: "\<And>t at. 2 * length t + 1 \<le> n \<Longrightarrow>
                  scan_once n t \<noteq> Inl (py ''maximum recursion depth exceeded'', at)"
    and obj: "\<And>pairs t at. 2 * length t + 2 \<le> n \<Longrightarrow>
                  parse_object n pairs t \<noteq> Inl (py ''maximum recursion depth exceeded'', at)"
    and fuel: "2 * length s + 2 \<le> Suc n"
  shows "parse_object (Suc n) pairs s \<noteq> Inl (py ''maximum recursion depth exceeded'', at)"
proof
  assume run: "parse_object (Suc n) pairs s = Inl (py ''maximum recursion depth exceeded'', at)"
  from run obtain cs where s: "s = 34 # cs"
    by (cases s) (auto simp: py_def split: if_splits)
  from run s scanstring_message [of s cs] obtain key r0 where k: "scanstring s cs = Inr (key, r0)"
    by (cases "scanstring s cs") auto
  from run s k obtain r1 where c: "skip_ws r0 = 58 # r1"
    by (cases "skip_ws r0") (auto simp: py_def split: if_splits)
  have l1: "length r1 < length s"
    using scanstring_shorter [OF k] skip_ws_Cons_le [OF c] s by simp
  then have "2 * length (skip_ws r1) + 1 \<le> n"
    using skip_ws_le [of r1] fuel by simp
  from scan [OF this] run s k c obtain val r2 where v: "scan_once n (skip_ws r1) = Inr (val, r2)"
    by (cases "scan_once n (skip_ws r1)") auto
  from run s k c v obtain x r3 where sk: "skip_ws r2 = x # r3"
    by (cases "skip_ws r2") (auto simp: py_def)
  have "length r3 < length s"
    using l1 scan_once_shorter [OF v] skip_ws_le [of r1] skip_ws_Cons_le [OF sk] by simp
  then have "2 * length (skip_ws r3) + 2 \<le> n"
    using skip_ws_le [of r3] fuel by simp
  from obj [OF this] run s k c v sk show False
    by (auto simp: py_def split: if_splits)
qed

lemma enough_fuel:
  "(\<forall>s at. 2 * length s + 1 \<le> n \<longrightarrow>
      scan_once n s \<noteq> Inl (py ''maximum recursion depth exceeded'', at)) \<and>
   (\<forall>pairs s at. 2 * length s + 2 \<le> n \<longrightarrow>
      parse_object n pairs s \<noteq> Inl (py ''maximum recursion depth exceeded'', at)) \<and>
   (\<forall>vals s at. 2 * length s + 2 \<le> n \<longrightarrow>
      parse_array n vals s \<noteq> Inl (py ''maximum recursion depth exceeded'', at))"
proof (induction n)
  case 0
  show ?case by simp
next
  case (Suc n)
  then have scan: "\<And>t at. 2 * length t + 1 \<le> n \<Longrightarrow>
                  scan_once n t \<noteq> Inl (py ''maximum recursion depth exceeded'', at)"
    and obj: "\<And>pairs t at. 2 * length t + 2 \<le> n \<Longrightarrow>
                  parse_object n pairs t \<noteq> Inl (py ''maximum recursion depth exceeded'', at)"
    and arr: "\<And>vals t at. 2 * length t + 2 \<le> n \<Longrightarrow>
                  parse_array n vals t \<noteq> Inl (py ''maximum recursion depth exceeded'', at)"
    by blast+
  have a: "scan_once (Suc n) s \<noteq> Inl (py ''maximum recursion depth exceeded'', at)"
    if "2 * length s + 1 \<le> Suc n" for s at
    using obj arr that by (rule fuel_scan_once)
  have b: "parse_object (Suc n) pairs s \<noteq> Inl (py ''maximum recursion depth exceeded'', at)"
    if "2 * length s + 2 \<le> Suc n" for pairs s at
    using scan obj that by (rule fuel_parse_object)
  have c: "parse_array (Suc n) vals s \<noteq> Inl (py ''maximum recursion depth exceeded'', at)"
    if "2 * length s + 2 \<le> Suc n" for vals s at
    using scan arr that by (rule fuel_parse_array)
  from a b c show ?case by blast
qed

lemma json_loads_scan_completes:
  "scan_once (2 * length s + 2) (skip_ws s) \<noteq> Inl (py ''maximum recursion depth exceeded'', at)"
proof -
  have "2 * length (skip_ws s) + 1 \<le> 2 * length s + 2" using skip_ws_le [of s] by simp
  with enough_fuel [of "2 * length s + 2"] show ?thesis by blast
qed

section \<open>Properties of the handler\<close>

lemma try_block_valid:
  assumes "get_json = Inr (JObject kvs)"
    and "map_of kvs (py ''prompt'') = Some (JString p)"
    and "strip p \<noteq> []"
  shows "try_block get_json generate_content loads =
     (case generate_content (SYSTEM_PROMPT @ py ''\<newline>\<newline>User request: '' @ strip p) of
        Inl e \<Rightarrow> (Raised e None, [SYSTEM_PROMPT @ py ''\<newline>\<newline>User request: '' @ strip p])
      | Inr response \<Rightarrow>
          (case response_text response of
             Inl e \<Rightarrow> (Raised e (Some response),
                        [SYSTEM_PROMPT @ py ''\<newline>\<newline>User request: '' @ strip p])
           | Inr text \<Rightarrow>
               (case extract_json_from_text loads text of
                  Inl e \<Rightarrow> (Raised e (Some response),
                             [SYSTEM_PROMPT @ py ''\<newline>\<newline>User request: '' @ strip p])
                | Inr generated_code \<Rightarrow>
                    (Returned \<lparr>status = 200, body = generated_code\<rparr>,
                     [SYSTEM_PROMPT @ py ''\<newline>\<newline>User request: '' @ strip p]))))"
proof -
  from assms(2) have mem: "(py ''prompt'', JString p) \<in> set kvs" by (rule map_of_SomeD)
  then have ne: "kvs \<noteq> []" by auto
  from mem have key: "py ''prompt'' \<in> set (map fst kvs)" by force
  show ?thesis
    unfolding try_block_def using assms ne key by (simp add: Let_def)
qed

lemma try_block_no_call:
  assumes "\<not> (\<exists>kvs p. get_json = Inr (JObject kvs) \<and>
              map_of kvs (py ''prompt'') = Some (JString p) \<and> strip p \<noteq> [])"
  shows "snd (try_block get_json generate_content loads) = []"
proof (cases get_json)
  case (Inl e)
  then show ?thesis by (simp add: try_block_def)
next
  case (Inr data)
  show ?thesis
  proof (cases data)
    case (JObject kvs)
    show ?thesis
    proof (cases "map_of kvs (py ''prompt'')")
      case None
      then have "py ''prompt'' \<notin> set (map fst kvs)" by (simp add: map_of_eq_None_iff)
      with Inr JObject show ?thesis by (simp add: try_block_def)
    next
      case (Some v)
      show ?thesis
      proof (cases v)
        case (JString p)
        with assms Inr JObject Some have "strip p = []" by auto
        with Inr JObject Some JString show ?thesis by (simp add: try_block_def)
      qed (use Inr JObject Some in \<open>simp_all add: try_block_def\<close>)
    qed
  qed (use Inr in \<open>simp_all add: try_block_def\<close>)
qed

lemma model_calls_generate_code:
  "model_calls (generate_code get_json generate_content loads) =
     snd (try_block get_json generate_content loads)"
  by (cases "try_block get_json generate_content loads";
      cases "fst (try_block get_json generate_content loads)")
     (auto simp: generate_code_def split: option.splits sum.splits)

lemma generate_code_returned:
  "fst (try_block get_json generate_content loads) = Returned r \<Longrightarrow>
   reply (generate_code get_json generate_content loads) = Inr r"
  by (cases "try_block get_json generate_content loads") (auto simp: generate_code_def)

lemma generate_code_raised:
  "fst (try_block get_json generate_content loads) = Raised e bound \<Longrightarrow>
   reply (generate_code get_json generate_content loads) =
     (if isinstance_ValueError e then
        (case bound of
           None \<Rightarrow>
             Inr \<lparr>status = 502,
                  body = JObject [(py ''error'', JString (py ''AI returned malformed response'')),
                                  (py ''raw_response'', JNull)]\<rparr>
         | Some response \<Rightarrow>
             (case response_text response of
                Inl e' \<Rightarrow> Inl e'
              | Inr text \<Rightarrow>
                  Inr \<lparr>status = 502,
                       body = JObject [(py ''error'', JString (py ''AI returned malformed response'')),
                                       (py ''raw_response'', JString text)]\<rparr>))
      else Inr (error_response 500 (py ''Internal server error'')))"
  by (cases "try_block get_json generate_content loads")
     (auto simp: generate_code_def split: option.splits sum.splits)

lemma strip_x: "strip (py ''x'') = py ''x''"
  by (simp add: strip_def py_def isspace_def)

lemma strip_blank: "strip (py ''  '') = []"
  by (simp add: strip_def py_def isspace_def)

text \<open>
  Claim C3. A body without a \<open>prompt\<close> key should be answered 400. The body \<open>7\<close> has no
  such key: \<open>not data\<close> is false, and the membership test \<open>'prompt' not in data\<close> of line 65
  raises \<open>TypeError\<close> on a number; \<open>except Exception\<close> answers 500 with the generic message.
\<close>

theorem body_without_prompt_key_answers_500:
  "generate_code (Inr (JInt 7)) generate_content loads =
     \<lparr>reply = Inr (error_response 500 (py ''Internal server error'')), model_calls = []\<rparr>"
  by (simp add: generate_code_def try_block_def)

theorem body_without_prompt_key_witness:
  "reply (generate_code (Inr (JInt 7)) (client_returning (py ''{}'')) json_loads) =
     Inr \<lparr>status = 500, body = JObject [(py ''error'', JString (py ''Internal server error''))]\<rparr>"
  using body_without_prompt_key_answers_500 [of "client_returning (py ''{}'')" json_loads]
  by (simp add: error_response_def)

text \<open>
  The same line answers 400 wherever the test does not raise: for an object without the
  key, for an object whose prompt strips to the empty string (line 70), for an array or a
  string that does not contain \<open>prompt\<close>, and for \<open>null\<close>, zero, \<open>false\<close> and the empty
  containers. Every non-zero number and \<open>true\<close> are answered 500, and so are an array with
  the element \<open>prompt\<close> and a string containing it, which pass the test and fail at the
  subscript of line 68.
\<close>

lemma object_body_missing_or_empty_prompt_400:
  assumes "get_json = Inr (JObject kvs)"
    and "py ''prompt'' \<notin> fst ` set kvs \<or>
         (\<exists>p. map_of kvs (py ''prompt'') = Some (JString p) \<and> strip p = [])"
  shows "\<exists>message. reply (generate_code get_json generate_content loads) =
                     Inr (error_response 400 message)"
proof -
  have "\<exists>message. fst (try_block get_json generate_content loads) =
          Returned (error_response 400 message)"
    using assms(2)
  proof
    assume "py ''prompt'' \<notin> fst ` set kvs"
    then show ?thesis using assms(1) by (auto simp: try_block_def)
  next
    assume "\<exists>p. map_of kvs (py ''prompt'') = Some (JString p) \<and> strip p = []"
    then obtain p where p: "map_of kvs (py ''prompt'') = Some (JString p)" "strip p = []"
      by blast
    from p(1) have "(py ''prompt'', JString p) \<in> set kvs" by (rule map_of_SomeD)
    then have "py ''prompt'' \<in> set (map fst kvs)" by force
    then show ?thesis using assms(1) p by (auto simp: try_block_def)
  qed
  then obtain message where
    "fst (try_block get_json generate_content loads) = Returned (error_response 400 message)"
    by blast
  then have "reply (generate_code get_json generate_content loads) =
               Inr (error_response 400 message)"
    by (rule generate_code_returned)
  then show ?thesis by blast
qed

lemma falsy_body_answers_400:
  "\<not> truthy data \<Longrightarrow>
   \<exists>message. reply (generate_code (Inr data) generate_content loads) =
               Inr (error_response 400 message)"
  by (auto simp: generate_code_def try_block_def)

lemma array_or_string_without_prompt_answers_400:
  "JString (py ''prompt'') \<notin> set xs \<Longrightarrow>
   \<exists>message. reply (generate_code (Inr (JArray xs)) generate_content loads) =
               Inr (error_response 400 message)"
  "\<not> str_contains (py ''prompt'') s \<Longrightarrow>
   \<exists>message. reply (generate_code (Inr (JString s)) generate_content loads) =
               Inr (error_response 400 message)"
  by (auto simp: generate_code_def try_block_def)

lemma truthy_scalar_body_answers_500:
  "i \<noteq> 0 \<Longrightarrow>
   reply (generate_code (Inr (JInt i)) generate_content loads) =
     Inr (error_response 500 (py ''Internal server error''))"
  "\<not> float_is_zero f \<Longrightarrow>
   reply (generate_code (Inr (JFloat f)) generate_content loads) =
     Inr (error_response 500 (py ''Internal server error''))"
  "reply (generate_code (Inr (JBool True)) generate_content loads) =
     Inr (error_response 500 (py ''Internal server error''))"
  by (simp_all add: generate_code_def try_block_def)

lemma py_prompt_nonempty: "py ''prompt'' \<noteq> []"
  by (simp add: py_def)

lemma array_or_string_with_prompt_answers_500:
  "JString (py ''prompt'') \<in> set xs \<Longrightarrow>
   reply (generate_code (Inr (JArray xs)) generate_content loads) =
     Inr (error_response 500 (py ''Internal server error''))"
  "str_contains (py ''prompt'') s \<Longrightarrow>
   reply (generate_code (Inr (JString s)) generate_content loads) =
     Inr (error_response 500 (py ''Internal server error''))"
  by (cases s; auto simp: generate_code_def try_block_def py_prompt_nonempty)+

text \<open>
  Claim C4. A body that is missing or is not valid JSON should be answered with a
  client-error status. When the body is not valid JSON, \<open>request.get_json()\<close> raises
  werkzeug's \<open>BadRequest\<close>, an \<open>HTTPException\<close> of code 400; the handler's
  \<open>except Exception\<close> catches it and the response is 500 with the generic message.
\<close>

theorem invalid_json_body_answers_500:
  "generate_code (Inl (HTTPException code description)) generate_content loads =
     \<lparr>reply = Inr (error_response 500 (py ''Internal server error'')), model_calls = []\<rparr>"
  by (simp add: generate_code_def try_block_def)

theorem invalid_json_body_answers_500_witness:
  "reply (generate_code (Inl (HTTPException 400 (py ''Bad Request'')))
     (client_returning (py ''{}'')) json_loads) =
   Inr \<lparr>status = 500, body = JObject [(py ''error'', JString (py ''Internal server error''))]\<rparr>"
  using invalid_json_body_answers_500
          [of 400 "py ''Bad Request''" "client_returning (py ''{}'')" json_loads]
  by (simp add: error_response_def)

text \<open>
  Claim C5. A request that fails validation never reaches the model. Failing validation
  is the negation of: the body is an object whose \<open>prompt\<close> is a string that is not empty
  after stripping. That covers a body for which \<open>get_json\<close> raises or returns \<open>None\<close>, an
  object without the key, and a prompt that strips to the empty string.
\<close>

theorem no_model_call_on_validation_failure:
  assumes "\<not> (\<exists>kvs p. get_json = Inr (JObject kvs) \<and>
              map_of kvs (py ''prompt'') = Some (JString p) \<and> strip p \<noteq> [])"
  shows "model_calls (generate_code get_json generate_content loads) = []"
  using try_block_no_call [OF assms] by (simp add: model_calls_generate_code)

text \<open>
  A blank prompt, and a body that is not valid JSON.
\<close>

theorem no_model_call_witness:
  "model_calls (generate_code (Inr (JObject [(py ''prompt'', JString (py ''  ''))]))
     (client_returning (py ''{}'')) json_loads) = [] \<and>
   model_calls (generate_code (Inl (HTTPException 400 (py ''Bad Request'')))
     (client_returning (py ''{}'')) json_loads) = []"
proof -
  have a: "\<not> (\<exists>kvs p. (Inr (JObject [(py ''prompt'', JString (py ''  ''))]) :: exn + json) =
                 Inr (JObject kvs) \<and>
               map_of kvs (py ''prompt'') = Some (JString p) \<and> strip p \<noteq> [])"
    by (auto simp: strip_blank)
  have b: "\<not> (\<exists>kvs p. (Inl (HTTPException 400 (py ''Bad Request'')) :: exn + json) =
                 Inr (JObject kvs) \<and>
               map_of kvs (py ''prompt'') = Some (JString p) \<and> strip p \<noteq> [])"
    by simp
  from no_model_call_on_validation_failure [OF a] no_model_call_on_validation_failure [OF b]
  show ?thesis by blast
qed

text \<open>
  Conversely, a request that passes validation reaches the model exactly once, with the
  system prompt followed by the stripped prompt.
\<close>

lemma model_called_once_when_valid:
  assumes "get_json = Inr (JObject kvs)"
    and "map_of kvs (py ''prompt'') = Some (JString p)"
    and "strip p \<noteq> []"
  shows "model_calls (generate_code get_json generate_content loads) =
           [SYSTEM_PROMPT @ py ''\<newline>\<newline>User request: '' @ strip p]"
  using try_block_valid [OF assms, of generate_content loads]
  by (auto simp: model_calls_generate_code split: sum.splits)



text \<open>
  Claim C8. When the captured span decodes, the decoded value is returned as it is and the
  response is 200 with that value as body: nothing is required of its keys.
\<close>

theorem parsed_object_returned_verbatim:
  assumes "get_json = Inr (JObject kvs)"
    and "map_of kvs (py ''prompt'') = Some (JString p)"
    and "strip p \<noteq> []"
    and "generate_content (SYSTEM_PROMPT @ py ''\<newline>\<newline>User request: '' @ strip p) =
           Inr response"
    and "response_text response = Inr text"
    and "brace_span text = Some span"
    and "loads span = Inr obj"
  shows "extract_json_from_text loads text = Inr obj \<and>
         reply (generate_code get_json generate_content loads) =
           Inr \<lparr>status = 200, body = obj\<rparr>"
proof -
  have x: "extract_json_from_text loads text = Inr obj"
    using extract_span [OF assms(6), of loads] assms(7) by simp
  have "fst (try_block get_json generate_content loads) = Returned \<lparr>status = 200, body = obj\<rparr>"
    using try_block_valid [OF assms(1-3), of generate_content loads] assms(4,5) x by simp
  from generate_code_returned [OF this] x show ?thesis by simp
qed

text \<open>
  An object with \<open>html\<close> only, without \<open>css\<close> and \<open>js\<close>.
\<close>

theorem parsed_object_returned_verbatim_witness:
  "reply (generate_code (Inr (JObject [(py ''prompt'', JString (py ''x''))]))
     (client_returning (py ''{\"html\": \"<p>\"}'')) json_loads) =
   Inr \<lparr>status = 200, body = JObject [(py ''html'', JString (py ''<p>''))]\<rparr>"
proof -
  have a: "map_of [(py ''prompt'', JString (py ''x''))] (py ''prompt'') = Some (JString (py ''x''))"
    by simp
  have b: "strip (py ''x'') \<noteq> []" by (simp add: strip_x) (simp add: py_def)
  have c: "client_returning (py ''{\"html\": \"<p>\"}'')
             (SYSTEM_PROMPT @ py ''\<newline>\<newline>User request: '' @ strip (py ''x'')) =
           Inr (Response (Inr (py ''{\"html\": \"<p>\"}'')))"
    by (simp add: client_returning_def)
  have t: "response_text (Response (Inr (py ''{\"html\": \"<p>\"}''))) =
           Inr (py ''{\"html\": \"<p>\"}'')"
    by simp
  have d: "brace_span (py ''{\"html\": \"<p>\"}'') = Some (py ''{\"html\": \"<p>\"}'')"
    by code_simp
  have e: "json_loads (py ''{\"html\": \"<p>\"}'') = Inr (JObject [(py ''html'', JString (py ''<p>''))])"
    by code_simp
  from parsed_object_returned_verbatim
         [where generate_content = "client_returning (py ''{\"html\": \"<p>\"}'')"
            and loads = json_loads, OF refl a b c t d e]
  show ?thesis by simp
qed




text \<open>
  What is left out above is a \<open>ValueError\<close> raised by \<open>response.text\<close> itself. There
  \<open>response\<close> is bound, the handler reads the property again at line 86, it raises again,
  and the exception leaves the view function without a response being built.
\<close>

lemma response_text_value_error_escapes:
  assumes "get_json = Inr (JObject kvs)"
    and "map_of kvs (py ''prompt'') = Some (JString p)"
    and "strip p \<noteq> []"
    and "generate_content (SYSTEM_PROMPT @ py ''\<newline>\<newline>User request: '' @ strip p) =
           Inr response"
    and "response_text response = Inl e"
    and "isinstance_ValueError e"
  shows "reply (generate_code get_json generate_content loads) = Inl e"
proof -
  have "fst (try_block get_json generate_content loads) = Raised e (Some response)"
    using try_block_valid [OF assms(1-3), of generate_content loads] assms(4,5) by simp
  from generate_code_raised [OF this] assms(5,6) show ?thesis by simp
qed

text \<open>
  A response whose text raises \<open>ValueError\<close>: no response is built.
\<close>

lemma response_text_value_error_example:
  "reply (generate_code (Inr (JObject [(py ''prompt'', JString (py ''x''))]))
     (client_unreadable (ValueError (py ''no valid part''))) json_loads) =
   Inl (ValueError (py ''no valid part''))"
proof -
  have a: "map_of [(py ''prompt'', JString (py ''x''))] (py ''prompt'') = Some (JString (py ''x''))"
    by simp
  have b: "strip (py ''x'') \<noteq> []" by (simp add: strip_x) (simp add: py_def)
  have c: "client_unreadable (ValueError (py ''no valid part''))
             (SYSTEM_PROMPT @ py ''\<newline>\<newline>User request: '' @ strip (py ''x'')) =
           Inr (Response (Inl (ValueError (py ''no valid part''))))"
    by (simp add: client_unreadable_def)
  from response_text_value_error_escapes
         [where generate_content = "client_unreadable (ValueError (py ''no valid part''))"
            and loads = json_loads, OF refl a b c]
  show ?thesis by simp
qed



end
